theory Spec2Isabelle
  imports Main
begin

section \<open>ExDB: a key-value store with a table file and a write-ahead log\<close>

text \<open>
  The development embeds \<^verbatim>\<open>src/exDB.cpp\<close> (classes \<^verbatim>\<open>Storage\<close>, \<^verbatim>\<open>WAL\<close>,
  \<^verbatim>\<open>KeyValueDB\<close>) and its sibling \<^verbatim>\<open>src/unnamed/part_000\<close> (classes
  \<^verbatim>\<open>Storage\<close>, \<^verbatim>\<open>WAL\<close>, \<^verbatim>\<open>ExDB\<close>).

  Modelling decisions:
  \<^item> \<^verbatim>\<open>std::string\<close> is \<open>string\<close> (a list of 8-bit characters).
  \<^item> \<^verbatim>\<open>std::unordered_map<std::string, std::string>\<close> is a map
    \<open>string \<rightharpoonup> string\<close>. Its iteration order is unspecified in C++; wherever
    the code iterates over the container (\<^verbatim>\<open>Storage::save\<close>) the order in which the
    keys are visited is an explicit argument \<open>ks\<close>, and the theorems hold for every
    enumeration of the keys.
  \<^item> The file system says which file a path names (none when the path cannot be
    resolved: an empty name, a missing directory), what each file holds (nothing
    when it does not exist) and which files may be opened for reading and for
    writing. Two paths may name one file. Opening a file can fail, for reading and
    for writing; the code never tests an output stream, and a stream that failed to
    open ignores what is written to it. A stream that did open meets no device
    error afterwards.
  \<^item> \<^verbatim>\<open>std::ifstream\<close> is a record of the unread characters and the two state
    bits the code can observe (\<^verbatim>\<open>eofbit\<close>, \<^verbatim>\<open>failbit\<close>).
  \<^item> The \<^verbatim>\<open>std::shared_mutex\<close> is not modelled: every operation is taken as
    atomic, which is what the lock provides.
\<close>

subsection \<open>Input streams and token extraction\<close>

type_synonym Mapping = "string \<rightharpoonup> string"
type_synonym file_id = nat

record filesystem =
  path_file :: "string \<Rightarrow> file_id option"
  file_content :: "file_id \<rightharpoonup> string"
  file_readable :: "file_id \<Rightarrow> bool"
  file_writable :: "file_id \<Rightarrow> bool"

text \<open>
  What a program that opens the path \<open>name\<close> for reading finds: nothing when the
  path names no file, when the file does not exist or when it may not be read.
\<close>

definition read_file :: "filesystem \<Rightarrow> string \<Rightarrow> string option" where
  "read_file fs name =
     (case path_file fs name of
        None \<Rightarrow> None
      | Some i \<Rightarrow> if file_readable fs i then file_content fs i else None)"

record ifstream =
  buf :: string
  eofbit :: bool
  failbit :: bool

text \<open>\<^verbatim>\<open>std::isspace\<close> in the classic locale: space, \<^verbatim>\<open>\t \n \v \f \r\<close>.\<close>

definition isspace :: "char \<Rightarrow> bool" where
  "isspace c \<longleftrightarrow>
     c = CHR 0x20 \<or> c = CHR 0x09 \<or> c = CHR 0x0A \<or> c = CHR 0x0B \<or> c = CHR 0x0C \<or> c = CHR 0x0D"

text \<open>\<^verbatim>\<open>std::ifstream f(name)\<close>: a file that cannot be opened sets \<^verbatim>\<open>failbit\<close>.\<close>

definition ifstream_open :: "filesystem \<Rightarrow> string \<Rightarrow> ifstream" where
  "ifstream_open fs name =
     (case read_file fs name of
        None \<Rightarrow> \<lparr>buf = [], eofbit = False, failbit = True\<rparr>
      | Some c \<Rightarrow> \<lparr>buf = c, eofbit = False, failbit = False\<rparr>)"

text \<open>
  \<^verbatim>\<open>stream >> str\<close> for a \<^verbatim>\<open>std::string\<close>. The sentry fails, setting
  \<^verbatim>\<open>failbit\<close> and leaving \<^verbatim>\<open>str\<close> as it was, when the stream is not good or when
  only white space is left. Otherwise the string is replaced by the characters up to
  the next white space (not consumed) or the end of the file (which sets \<^verbatim>\<open>eofbit\<close>).
  The operator is called \<open>get_token\<close> here.
\<close>

definition get_token :: "ifstream \<Rightarrow> string \<Rightarrow> ifstream \<times> string" where
  "get_token f str =
     (if failbit f \<or> eofbit f then (f\<lparr>failbit := True\<rparr>, str)
      else let b = dropWhile isspace (buf f) in
        if b = [] then (f\<lparr>buf := [], eofbit := True, failbit := True\<rparr>, str)
        else let tok = takeWhile (\<lambda>c. \<not> isspace c) b;
                 rest = dropWhile (\<lambda>c. \<not> isspace c) b
             in (f\<lparr>buf := rest, eofbit := (rest = [])\<rparr>, tok))"

lemma get_token_failbit_mono: "failbit f \<Longrightarrow> failbit (fst (get_token f str))"
  by (simp add: get_token_def)

lemma get_token_buf_le: "length (buf (fst (get_token f str))) \<le> length (buf f)"
proof -
  have "length (dropWhile (\<lambda>c. \<not> isspace c) (dropWhile isspace (buf f)))
          \<le> length (buf f)"
    by (meson length_dropWhile_le order_trans)
  then show ?thesis
    by (simp add: get_token_def Let_def)
qed

lemma get_token_good:
  assumes "\<not> failbit f" "\<not> eofbit f" "dropWhile isspace (buf f) \<noteq> []"
  shows "get_token f str =
           (f\<lparr>buf := dropWhile (\<lambda>c. \<not> isspace c) (dropWhile isspace (buf f)),
              eofbit := (dropWhile (\<lambda>c. \<not> isspace c) (dropWhile isspace (buf f)) = [])\<rparr>,
            takeWhile (\<lambda>c. \<not> isspace c) (dropWhile isspace (buf f)))"
  unfolding get_token_def Let_def using assms by (simp only: if_False simp_thms)

lemma get_token_succeeds:
  assumes "\<not> failbit (fst (get_token f str))"
  shows "\<not> failbit f \<and> \<not> eofbit f \<and> dropWhile isspace (buf f) \<noteq> []"
  using assms unfolding get_token_def Let_def
  by (cases "failbit f \<or> eofbit f"; cases "dropWhile isspace (buf f) = []") simp_all

lemma get_token_buf_less:
  assumes "\<not> failbit (fst (get_token f str))"
  shows "length (buf (fst (get_token f str))) < length (buf f)"
proof -
  let ?b = "dropWhile isspace (buf f)"
  from get_token_succeeds [OF assms]
  have good: "\<not> failbit f" "\<not> eofbit f" and ne: "?b \<noteq> []"
    by simp_all
  from ne have "\<not> isspace (hd ?b)"
    by (metis hd_dropWhile)
  with ne have "length (dropWhile (\<lambda>c. \<not> isspace c) ?b) < length ?b"
    by (cases ?b) (auto simp: le_imp_less_Suc length_dropWhile_le)
  moreover have "length ?b \<le> length (buf f)"
    by (rule length_dropWhile_le)
  ultimately show ?thesis
    unfolding get_token_good [OF good ne] by simp
qed

lemma get_token_twice_less:
  assumes "\<not> failbit (fst (get_token (fst (get_token f a)) b))"
  shows "length (buf (fst (get_token (fst (get_token f a)) b))) < length (buf f)"
proof -
  from assms have "\<not> failbit (fst (get_token f a))"
    using get_token_failbit_mono by blast
  then have "length (buf (fst (get_token f a))) < length (buf f)"
    by (rule get_token_buf_less)
  moreover have "length (buf (fst (get_token (fst (get_token f a)) b)))
                   \<le> length (buf (fst (get_token f a)))"
    by (rule get_token_buf_le)
  ultimately show ?thesis by simp
qed

subsection \<open>Storage: the table file\<close>

text \<open>
  Member names end in an underscore in the source (\<^verbatim>\<open>dbFileName_\<close>); a prime stands
  for it here.
\<close>

record Storage =
  dbFileName' :: string

text \<open>
  The loop \<^verbatim>\<open>while (dbFile >> key >> value) { db[key] = value; }\<close>. Both
  extractions run before the stream is tested.
\<close>

function load_loop :: "ifstream \<Rightarrow> string \<Rightarrow> string \<Rightarrow> Mapping \<Rightarrow> Mapping" where
  "load_loop dbFile key val db =
     (let (f1, key1) = get_token dbFile key;
          (f2, val1) = get_token f1 val
      in if failbit f2 then db
         else load_loop f2 key1 val1 (db(key1 \<mapsto> val1)))"
  by pat_completeness auto
termination
proof (relation "measure (\<lambda>(dbFile, key, val, db). length (buf dbFile))", goal_cases)
  case 1
  show ?case by simp
next
  case (2 dbFile key val db x f1 key1 y f2 val1)
  then have "f2 = fst (get_token (fst (get_token dbFile key)) val)"
    by (metis fst_conv)
  with 2 show ?case
    using get_token_twice_less by simp
qed

declare load_loop.simps [simp del]

definition load :: "Storage \<Rightarrow> filesystem \<Rightarrow> Mapping" where
  "load st fs = load_loop (ifstream_open fs (dbFileName' st)) [] [] Map.empty"

text \<open>
  An output stream is the file it writes to, or nothing when it failed to open.
  \<^verbatim>\<open>std::ofstream f(name, std::ios_base::trunc)\<close> creates the file or empties it;
  with \<^verbatim>\<open>std::ios_base::app\<close> it creates the file when absent and keeps the content
  otherwise. Both fail, and change nothing, when the path names no file or the file
  may not be written. \<^verbatim>\<open>f << s\<close> appends the characters of \<open>s\<close>; on a stream
  that failed to open it does nothing.
\<close>

type_synonym ofstream = "file_id option"

definition ofstream_open_trunc :: "filesystem \<Rightarrow> string \<Rightarrow> ofstream \<times> filesystem" where
  "ofstream_open_trunc fs name =
     (case path_file fs name of
        None \<Rightarrow> (None, fs)
      | Some i \<Rightarrow>
          if file_writable fs i
          then (Some i, fs\<lparr>file_content := (file_content fs)(i \<mapsto> [])\<rparr>)
          else (None, fs))"

definition ofstream_open_app :: "filesystem \<Rightarrow> string \<Rightarrow> ofstream \<times> filesystem" where
  "ofstream_open_app fs name =
     (case path_file fs name of
        None \<Rightarrow> (None, fs)
      | Some i \<Rightarrow>
          if file_writable fs i
          then (case file_content fs i of
                  None \<Rightarrow> (Some i, fs\<lparr>file_content := (file_content fs)(i \<mapsto> [])\<rparr>)
                | Some c \<Rightarrow> (Some i, fs))
          else (None, fs))"

definition ofstream_write :: "filesystem \<Rightarrow> ofstream \<Rightarrow> string \<Rightarrow> filesystem" where
  "ofstream_write fs f s =
     (case f of
        None \<Rightarrow> fs
      | Some i \<Rightarrow>
          (case file_content fs i of
             None \<Rightarrow> fs
           | Some c \<Rightarrow> fs\<lparr>file_content := (file_content fs)(i \<mapsto> c @ s)\<rparr>))"

text \<open>
  \<^verbatim>\<open>for (const auto& pair : db) dbFile << pair.first << " " << pair.second << "\n";\<close>
  with \<open>ks\<close> the order in which the container hands out its keys.
\<close>

fun save_loop :: "ofstream \<Rightarrow> Mapping \<Rightarrow> string list \<Rightarrow> filesystem \<Rightarrow> filesystem" where
  "save_loop dbFile db [] fs = fs"
| "save_loop dbFile db (k # ks) fs =
     (case db k of
        None \<Rightarrow> save_loop dbFile db ks fs
      | Some v \<Rightarrow>
          save_loop dbFile db ks
            (ofstream_write (ofstream_write (ofstream_write (ofstream_write fs dbFile k)
               dbFile '' '') dbFile v) dbFile ''\<newline>''))"

definition save :: "Storage \<Rightarrow> Mapping \<Rightarrow> string list \<Rightarrow> filesystem \<Rightarrow> filesystem" where
  "save st db ks fs =
     (case ofstream_open_trunc fs (dbFileName' st) of
        (dbFile, fs1) \<Rightarrow> save_loop dbFile db ks fs1)"

subsection \<open>WAL: the write-ahead log\<close>

record WAL =
  walFileName' :: string

definition logWriteOperation :: "WAL \<Rightarrow> string \<Rightarrow> string \<Rightarrow> filesystem \<Rightarrow> filesystem" where
  "logWriteOperation w key val fs =
     (case ofstream_open_app fs (walFileName' w) of
        (walFile, fs1) \<Rightarrow>
          ofstream_write (ofstream_write (ofstream_write (ofstream_write (ofstream_write
            fs1 walFile ''PUT '') walFile key) walFile '' '') walFile val) walFile ''\<newline>'')"

definition logDeleteOperation :: "WAL \<Rightarrow> string \<Rightarrow> filesystem \<Rightarrow> filesystem" where
  "logDeleteOperation w key fs =
     (case ofstream_open_app fs (walFileName' w) of
        (walFile, fs1) \<Rightarrow>
          ofstream_write (ofstream_write (ofstream_write
            fs1 walFile ''DEL '') walFile key) walFile ''\<newline>'')"

text \<open>
  The loop of \<^verbatim>\<open>WAL::applyLog\<close>. The three strings are declared before the loop and
  live across iterations; the result of \<^verbatim>\<open>walFile >> value\<close> is not tested.
\<close>

function applyLog_loop ::
  "ifstream \<Rightarrow> string \<Rightarrow> string \<Rightarrow> string \<Rightarrow> Mapping \<Rightarrow> Mapping" where
  "applyLog_loop walFile operation key val db =
     (let (f1, operation1) = get_token walFile operation;
          (f2, key1) = get_token f1 key
      in if failbit f2 then db
         else if operation1 = ''PUT'' then
           (let (f3, val1) = get_token f2 val
            in applyLog_loop f3 operation1 key1 val1 (db(key1 \<mapsto> val1)))
         else if operation1 = ''DEL'' then
           applyLog_loop f2 operation1 key1 val (db(key1 := None))
         else applyLog_loop f2 operation1 key1 val db)"
  by pat_completeness auto
termination
proof (relation "measure (\<lambda>(walFile, operation, key, val, db). length (buf walFile))",
    goal_cases)
  case 1
  show ?case by simp
next
  case (2 walFile operation key val db x f1 operation1 y f2 key1 z f3 val1)
  then have "f2 = fst (get_token (fst (get_token walFile operation)) key)"
    and "f3 = fst (get_token f2 val)"
    by (metis fst_conv)+
  with 2 show ?case
    using get_token_twice_less [of walFile operation key] get_token_buf_le [of f2 val] by simp
next
  case (3 walFile operation key val db x f1 operation1 y f2 key1)
  then have "f2 = fst (get_token (fst (get_token walFile operation)) key)"
    by (metis fst_conv)
  with 3 show ?case
    using get_token_twice_less by simp
next
  case (4 walFile operation key val db x f1 operation1 y f2 key1)
  then have "f2 = fst (get_token (fst (get_token walFile operation)) key)"
    by (metis fst_conv)
  with 4 show ?case
    using get_token_twice_less by simp
qed

declare applyLog_loop.simps [simp del]

definition applyLog :: "WAL \<Rightarrow> Mapping \<Rightarrow> filesystem \<Rightarrow> Mapping" where
  "applyLog w db fs = applyLog_loop (ifstream_open fs (walFileName' w)) [] [] [] db"

definition clearLog :: "WAL \<Rightarrow> filesystem \<Rightarrow> filesystem" where
  "clearLog w fs = snd (ofstream_open_trunc fs (walFileName' w))"

subsection \<open>KeyValueDB: the facade\<close>

record KeyValueDB =
  db' :: Mapping
  storage' :: Storage
  wal' :: WAL

text \<open>
  The constructor reads the file system; the other members take and return the
  object together with the file system.
\<close>

definition KeyValueDB_new :: "string \<Rightarrow> string \<Rightarrow> filesystem \<Rightarrow> KeyValueDB" where
  "KeyValueDB_new dbFileName walFileName fs =
     (let st = \<lparr>dbFileName' = dbFileName\<rparr>;
          w = \<lparr>walFileName' = walFileName\<rparr>;
          db0 = load st fs
      in \<lparr>db' = applyLog w db0 fs, storage' = st, wal' = w\<rparr>)"

definition put :: "string \<Rightarrow> string \<Rightarrow> KeyValueDB \<times> filesystem \<Rightarrow> KeyValueDB \<times> filesystem" where
  "put key val s =
     (case s of (this, fs) \<Rightarrow>
        (this\<lparr>db' := (db' this)(key \<mapsto> val)\<rparr>, logWriteOperation (wal' this) key val fs))"

definition get :: "string \<Rightarrow> KeyValueDB \<times> filesystem \<Rightarrow> string \<times> KeyValueDB \<times> filesystem" where
  "get key s =
     (case s of (this, fs) \<Rightarrow>
        (case db' this key of
           Some v \<Rightarrow> (v, this, fs)
         | None \<Rightarrow> (''Key not found'', this, fs)))"

definition remove :: "string \<Rightarrow> KeyValueDB \<times> filesystem \<Rightarrow> KeyValueDB \<times> filesystem" where
  "remove key s =
     (case s of (this, fs) \<Rightarrow>
        (this\<lparr>db' := (db' this)(key := None)\<rparr>, logDeleteOperation (wal' this) key fs))"

definition mergeLogs :: "string list \<Rightarrow> KeyValueDB \<times> filesystem \<Rightarrow> KeyValueDB \<times> filesystem" where
  "mergeLogs ks s =
     (case s of (this, fs) \<Rightarrow>
        (this, clearLog (wal' this) (save (storage' this) (db' this) ks fs)))"

subsection \<open>The second implementation: \<^verbatim>\<open>part_000\<close>\<close>

text \<open>
  \<^verbatim>\<open>src/unnamed/part_000\<close> declares \<^verbatim>\<open>Storage\<close>, \<^verbatim>\<open>WAL\<close> and the facade
  \<^verbatim>\<open>ExDB\<close>. Their members are embedded under the prefix \<open>ExDB_\<close>; the fields
  carry the prefix \<open>x_\<close>. The constructors of \<^verbatim>\<open>Storage\<close> and \<^verbatim>\<open>WAL\<close> take the
  file name by value and move it into the member; the member functions are
  \<^verbatim>\<open>const\<close>.
\<close>

record ExDB_Storage =
  x_dbFileName' :: string

function ExDB_load_loop :: "ifstream \<Rightarrow> string \<Rightarrow> string \<Rightarrow> Mapping \<Rightarrow> Mapping" where
  "ExDB_load_loop dbFile key val db =
     (let (f1, key1) = get_token dbFile key;
          (f2, val1) = get_token f1 val
      in if failbit f2 then db
         else ExDB_load_loop f2 key1 val1 (db(key1 \<mapsto> val1)))"
  by pat_completeness auto
termination
proof (relation "measure (\<lambda>(dbFile, key, val, db). length (buf dbFile))", goal_cases)
  case 1
  show ?case by simp
next
  case (2 dbFile key val db x f1 key1 y f2 val1)
  then have "f2 = fst (get_token (fst (get_token dbFile key)) val)"
    by (metis fst_conv)
  with 2 show ?case
    using get_token_twice_less by simp
qed

declare ExDB_load_loop.simps [simp del]

definition ExDB_load :: "ExDB_Storage \<Rightarrow> filesystem \<Rightarrow> Mapping" where
  "ExDB_load st fs = ExDB_load_loop (ifstream_open fs (x_dbFileName' st)) [] [] Map.empty"

fun ExDB_save_loop :: "ofstream \<Rightarrow> Mapping \<Rightarrow> string list \<Rightarrow> filesystem \<Rightarrow> filesystem" where
  "ExDB_save_loop dbFile db [] fs = fs"
| "ExDB_save_loop dbFile db (k # ks) fs =
     (case db k of
        None \<Rightarrow> ExDB_save_loop dbFile db ks fs
      | Some v \<Rightarrow>
          ExDB_save_loop dbFile db ks
            (ofstream_write (ofstream_write (ofstream_write (ofstream_write fs dbFile k)
               dbFile '' '') dbFile v) dbFile ''\<newline>''))"

definition ExDB_save :: "ExDB_Storage \<Rightarrow> Mapping \<Rightarrow> string list \<Rightarrow> filesystem \<Rightarrow> filesystem" where
  "ExDB_save st db ks fs =
     (case ofstream_open_trunc fs (x_dbFileName' st) of
        (dbFile, fs1) \<Rightarrow> ExDB_save_loop dbFile db ks fs1)"

record ExDB_WAL =
  x_walFileName' :: string

definition ExDB_logWriteOperation ::
  "ExDB_WAL \<Rightarrow> string \<Rightarrow> string \<Rightarrow> filesystem \<Rightarrow> filesystem" where
  "ExDB_logWriteOperation w key val fs =
     (case ofstream_open_app fs (x_walFileName' w) of
        (walFile, fs1) \<Rightarrow>
          ofstream_write (ofstream_write (ofstream_write (ofstream_write (ofstream_write
            fs1 walFile ''PUT '') walFile key) walFile '' '') walFile val) walFile ''\<newline>'')"

definition ExDB_logDeleteOperation :: "ExDB_WAL \<Rightarrow> string \<Rightarrow> filesystem \<Rightarrow> filesystem" where
  "ExDB_logDeleteOperation w key fs =
     (case ofstream_open_app fs (x_walFileName' w) of
        (walFile, fs1) \<Rightarrow>
          ofstream_write (ofstream_write (ofstream_write
            fs1 walFile ''DEL '') walFile key) walFile ''\<newline>'')"

function ExDB_applyLog_loop ::
  "ifstream \<Rightarrow> string \<Rightarrow> string \<Rightarrow> string \<Rightarrow> Mapping \<Rightarrow> Mapping" where
  "ExDB_applyLog_loop walFile operation key val db =
     (let (f1, operation1) = get_token walFile operation;
          (f2, key1) = get_token f1 key
      in if failbit f2 then db
         else if operation1 = ''PUT'' then
           (let (f3, val1) = get_token f2 val
            in ExDB_applyLog_loop f3 operation1 key1 val1 (db(key1 \<mapsto> val1)))
         else if operation1 = ''DEL'' then
           ExDB_applyLog_loop f2 operation1 key1 val (db(key1 := None))
         else ExDB_applyLog_loop f2 operation1 key1 val db)"
  by pat_completeness auto
termination
proof (relation "measure (\<lambda>(walFile, operation, key, val, db). length (buf walFile))",
    goal_cases)
  case 1
  show ?case by simp
next
  case (2 walFile operation key val db x f1 operation1 y f2 key1 z f3 val1)
  then have "f2 = fst (get_token (fst (get_token walFile operation)) key)"
    and "f3 = fst (get_token f2 val)"
    by (metis fst_conv)+
  with 2 show ?case
    using get_token_twice_less [of walFile operation key] get_token_buf_le [of f2 val] by simp
next
  case (3 walFile operation key val db x f1 operation1 y f2 key1)
  then have "f2 = fst (get_token (fst (get_token walFile operation)) key)"
    by (metis fst_conv)
  with 3 show ?case
    using get_token_twice_less by simp
next
  case (4 walFile operation key val db x f1 operation1 y f2 key1)
  then have "f2 = fst (get_token (fst (get_token walFile operation)) key)"
    by (metis fst_conv)
  with 4 show ?case
    using get_token_twice_less by simp
qed

declare ExDB_applyLog_loop.simps [simp del]

definition ExDB_applyLog :: "ExDB_WAL \<Rightarrow> Mapping \<Rightarrow> filesystem \<Rightarrow> Mapping" where
  "ExDB_applyLog w db fs = ExDB_applyLog_loop (ifstream_open fs (x_walFileName' w)) [] [] [] db"

definition ExDB_clearLog :: "ExDB_WAL \<Rightarrow> filesystem \<Rightarrow> filesystem" where
  "ExDB_clearLog w fs = snd (ofstream_open_trunc fs (x_walFileName' w))"

record ExDB =
  x_db' :: Mapping
  x_storage' :: ExDB_Storage
  x_wal' :: ExDB_WAL

definition ExDB_new :: "string \<Rightarrow> string \<Rightarrow> filesystem \<Rightarrow> ExDB" where
  "ExDB_new dbFileName walFileName fs =
     (let st = \<lparr>x_dbFileName' = dbFileName\<rparr>;
          w = \<lparr>x_walFileName' = walFileName\<rparr>;
          db0 = ExDB_load st fs
      in \<lparr>x_db' = ExDB_applyLog w db0 fs, x_storage' = st, x_wal' = w\<rparr>)"

definition ExDB_put :: "string \<Rightarrow> string \<Rightarrow> ExDB \<times> filesystem \<Rightarrow> ExDB \<times> filesystem" where
  "ExDB_put key val s =
     (case s of (this, fs) \<Rightarrow>
        (this\<lparr>x_db' := (x_db' this)(key \<mapsto> val)\<rparr>,
         ExDB_logWriteOperation (x_wal' this) key val fs))"

definition ExDB_get :: "string \<Rightarrow> ExDB \<times> filesystem \<Rightarrow> string \<times> ExDB \<times> filesystem" where
  "ExDB_get key s =
     (case s of (this, fs) \<Rightarrow>
        (case x_db' this key of
           Some v \<Rightarrow> (v, this, fs)
         | None \<Rightarrow> (''Key not found'', this, fs)))"

definition ExDB_remove :: "string \<Rightarrow> ExDB \<times> filesystem \<Rightarrow> ExDB \<times> filesystem" where
  "ExDB_remove key s =
     (case s of (this, fs) \<Rightarrow>
        (this\<lparr>x_db' := (x_db' this)(key := None)\<rparr>,
         ExDB_logDeleteOperation (x_wal' this) key fs))"

definition ExDB_mergeLogs :: "string list \<Rightarrow> ExDB \<times> filesystem \<Rightarrow> ExDB \<times> filesystem" where
  "ExDB_mergeLogs ks s =
     (case s of (this, fs) \<Rightarrow>
        (this, ExDB_clearLog (x_wal' this) (ExDB_save (x_storage' this) (x_db' this) ks fs)))"

subsection \<open>Call sequences\<close>

text \<open>
  A client calls the four public members in some order. A call to \<^verbatim>\<open>mergeLogs\<close>
  carries the order in which the container is iterated at that moment. The result
  of a \<^verbatim>\<open>void\<close> member is \<open>None\<close>.
\<close>

datatype call =
  Call_put string string
| Call_get string
| Call_remove string
| Call_mergeLogs "string list"

fun KeyValueDB_call ::
  "call \<Rightarrow> KeyValueDB \<times> filesystem \<Rightarrow> string option \<times> KeyValueDB \<times> filesystem" where
  "KeyValueDB_call (Call_put key val) s = (None, put key val s)"
| "KeyValueDB_call (Call_get key) s = (case get key s of (r, s') \<Rightarrow> (Some r, s'))"
| "KeyValueDB_call (Call_remove key) s = (None, remove key s)"
| "KeyValueDB_call (Call_mergeLogs ks) s = (None, mergeLogs ks s)"

fun KeyValueDB_run ::
  "call list \<Rightarrow> KeyValueDB \<times> filesystem \<Rightarrow> string option list \<times> KeyValueDB \<times> filesystem" where
  "KeyValueDB_run [] s = ([], s)"
| "KeyValueDB_run (c # cs) s =
     (case KeyValueDB_call c s of (r, s') \<Rightarrow>
        (case KeyValueDB_run cs s' of (rs, s'') \<Rightarrow> (r # rs, s'')))"

fun ExDB_call :: "call \<Rightarrow> ExDB \<times> filesystem \<Rightarrow> string option \<times> ExDB \<times> filesystem" where
  "ExDB_call (Call_put key val) s = (None, ExDB_put key val s)"
| "ExDB_call (Call_get key) s = (case ExDB_get key s of (r, s') \<Rightarrow> (Some r, s'))"
| "ExDB_call (Call_remove key) s = (None, ExDB_remove key s)"
| "ExDB_call (Call_mergeLogs ks) s = (None, ExDB_mergeLogs ks s)"

fun ExDB_run ::
  "call list \<Rightarrow> ExDB \<times> filesystem \<Rightarrow> string option list \<times> ExDB \<times> filesystem" where
  "ExDB_run [] s = ([], s)"
| "ExDB_run (c # cs) s =
     (case ExDB_call c s of (r, s') \<Rightarrow>
        (case ExDB_run cs s' of (rs, s'') \<Rightarrow> (r # rs, s'')))"

text \<open>
  What a client can observe of a run: the values returned, the in-memory mapping,
  the two file names and the files.
\<close>

definition KeyValueDB_observe ::
  "string option list \<times> KeyValueDB \<times> filesystem
     \<Rightarrow> string option list \<times> (Mapping \<times> string \<times> string) \<times> filesystem" where
  "KeyValueDB_observe x =
     (case x of (rs, this, fs) \<Rightarrow>
        (rs, (db' this, dbFileName' (storage' this), walFileName' (wal' this)), fs))"

definition ExDB_observe ::
  "string option list \<times> ExDB \<times> filesystem
     \<Rightarrow> string option list \<times> (Mapping \<times> string \<times> string) \<times> filesystem" where
  "ExDB_observe x =
     (case x of (rs, this, fs) \<Rightarrow>
        (rs, (x_db' this, x_dbFileName' (x_storage' this), x_walFileName' (x_wal' this)), fs))"

subsection \<open>The data model and the file formats of the specification\<close>

text \<open>
  The definitions of this subsection follow the words of the specification, not
  the code: a token is a non-empty text without white space; the table file holds
  one line \<^verbatim>\<open>key value\<close> per entry; the WAL holds one line \<^verbatim>\<open>PUT key value\<close> or
  \<^verbatim>\<open>DEL key\<close> per record; a record is applied to a mapping by setting or removing
  its key.
\<close>

definition token :: "string \<Rightarrow> bool" where
  "token t \<longleftrightarrow> t \<noteq> [] \<and> (\<forall>c\<in>set t. \<not> isspace c)"

definition blank :: "string \<Rightarrow> bool" where
  "blank ws \<longleftrightarrow> (\<forall>c\<in>set ws. isspace c)"

text \<open>A stream just opened on the content \<open>b\<close>, or one that has met no failure yet.\<close>

abbreviation good :: "string \<Rightarrow> ifstream" where
  "good b \<equiv> \<lparr>buf = b, eofbit = False, failbit = False\<rparr>"

definition wf_entry :: "string \<times> string \<Rightarrow> bool" where
  "wf_entry p \<longleftrightarrow> token (fst p) \<and> token (snd p)"

definition wf_mapping :: "Mapping \<Rightarrow> bool" where
  "wf_mapping M \<longleftrightarrow> (\<forall>k v. M k = Some v \<longrightarrow> token k \<and> token v)"

definition table_line :: "string \<times> string \<Rightarrow> string" where
  "table_line p = fst p @ '' '' @ snd p @ ''\<newline>''"

definition table_text :: "(string \<times> string) list \<Rightarrow> string" where
  "table_text ps = concat (map table_line ps)"

text \<open>The entries of a mapping, in the order \<open>ks\<close> of its keys.\<close>

fun entries :: "Mapping \<Rightarrow> string list \<Rightarrow> (string \<times> string) list" where
  "entries M [] = []"
| "entries M (k # ks) = (case M k of None \<Rightarrow> entries M ks | Some v \<Rightarrow> (k, v) # entries M ks)"

text \<open>Storing a sequence of entries one after the other: a later entry overwrites.\<close>

fun store_all :: "Mapping \<Rightarrow> (string \<times> string) list \<Rightarrow> Mapping" where
  "store_all M [] = M"
| "store_all M (p # ps) = store_all (M(fst p \<mapsto> snd p)) ps"

datatype wal_record = PUT string string | DEL string

fun wf_record :: "wal_record \<Rightarrow> bool" where
  "wf_record (PUT k v) \<longleftrightarrow> token k \<and> token v"
| "wf_record (DEL k) \<longleftrightarrow> token k"

fun apply_record :: "Mapping \<Rightarrow> wal_record \<Rightarrow> Mapping" where
  "apply_record M (PUT k v) = M(k \<mapsto> v)"
| "apply_record M (DEL k) = M(k := None)"

fun replay :: "Mapping \<Rightarrow> wal_record list \<Rightarrow> Mapping" where
  "replay M [] = M"
| "replay M (r # R) = replay (apply_record M r) R"

fun wal_line :: "wal_record \<Rightarrow> string" where
  "wal_line (PUT k v) = ''PUT '' @ k @ '' '' @ v @ ''\<newline>''"
| "wal_line (DEL k) = ''DEL '' @ k @ ''\<newline>''"

definition wal_text :: "wal_record list \<Rightarrow> string" where
  "wal_text R = concat (map wal_line R)"

text \<open>
  What the variable \<^verbatim>\<open>value\<close> of \<^verbatim>\<open>applyLog\<close> holds once the records of a sequence
  have been read, when it held \<open>v\<close> before: the value token of the last \<^verbatim>\<open>PUT\<close>
  record, or \<open>v\<close> when there is none.
\<close>

fun last_value :: "string \<Rightarrow> wal_record list \<Rightarrow> string" where
  "last_value v [] = v"
| "last_value v (PUT k x # R) = last_value x R"
| "last_value v (DEL k # R) = last_value v R"

text \<open>The content of a file, a file that does not exist counting as empty.\<close>

definition content_of :: "filesystem \<Rightarrow> file_id \<Rightarrow> string" where
  "content_of fs i = (case file_content fs i of None \<Rightarrow> [] | Some c \<Rightarrow> c)"

text \<open>
  A path can be opened for writing when it names a file that may be written, and an
  existing file under it can be opened for reading when it names a file that may be
  read.
\<close>

definition writable :: "filesystem \<Rightarrow> string \<Rightarrow> bool" where
  "writable fs name =
     (case path_file fs name of None \<Rightarrow> False | Some i \<Rightarrow> file_writable fs i)"


text \<open>The file system \<open>fs\<close> with the file \<open>i\<close> holding \<open>c\<close>.\<close>

definition with_file :: "filesystem \<Rightarrow> file_id \<Rightarrow> string \<Rightarrow> filesystem" where
  "with_file fs i c = fs\<lparr>file_content := (file_content fs)(i \<mapsto> c)\<rparr>"

text \<open>
  File systems for the examples. In \<open>disk t w\<close> the path \<^verbatim>\<open>db.txt\<close> names a file
  that holds \<open>t\<close> and \<^verbatim>\<open>wal.txt\<close> another that holds \<open>w\<close> (\<open>None\<close>: the file
  does not exist); no other path can be opened (\<^verbatim>\<open>nodir/db.txt\<close> for one); both
  files may be read and written. In \<open>linked_disk\<close> the paths \<^verbatim>\<open>f.txt\<close> and
  \<^verbatim>\<open>./f.txt\<close> name one file, which does not exist yet.
\<close>

definition disk :: "string option \<Rightarrow> string option \<Rightarrow> filesystem" where
  "disk t w =
     \<lparr>path_file = (\<lambda>p. if p = ''db.txt'' then Some 0 else if p = ''wal.txt'' then Some 1 else None),
      file_content = (\<lambda>i. if i = 0 then t else if i = 1 then w else None),
      file_readable = (\<lambda>i. True),
      file_writable = (\<lambda>i. True)\<rparr>"

definition linked_disk :: filesystem where
  "linked_disk =
     \<lparr>path_file = (\<lambda>p. if p = ''f.txt'' \<or> p = ''./f.txt'' then Some 0 else None),
      file_content = (\<lambda>i. None),
      file_readable = (\<lambda>i. True),
      file_writable = (\<lambda>i. True)\<rparr>"

text \<open>
  The value tokens of the \<^verbatim>\<open>PUT\<close> records of a sequence, in order, and the last of
  them (the empty string when the sequence has no \<^verbatim>\<open>PUT\<close> record).
\<close>

fun put_values :: "wal_record list \<Rightarrow> string list" where
  "put_values [] = []"
| "put_values (PUT k v # R) = v # put_values R"
| "put_values (DEL k # R) = put_values R"

definition last_put_value :: "wal_record list \<Rightarrow> string" where
  "last_put_value R = (if put_values R = [] then [] else last (put_values R))"

text \<open>
  Two facade objects of the two implementations correspond when they hold the same
  mapping and the same two file names.
\<close>

definition corresponds :: "KeyValueDB \<Rightarrow> ExDB \<Rightarrow> bool" where
  "corresponds a b \<longleftrightarrow>
     db' a = x_db' b \<and> dbFileName' (storage' a) = x_dbFileName' (x_storage' b)
     \<and> walFileName' (wal' a) = x_walFileName' (x_wal' b)"

section \<open>Reading tokens\<close>

lemma get_token_skip_blank:
  "blank ws \<Longrightarrow> get_token (good (ws @ b)) s = get_token (good b) s"
  by (simp add: get_token_def blank_def Let_def)

lemma get_token_token:
  assumes "token t" "isspace d"
  shows "get_token (good (t @ d # rest)) s = (good (d # rest), t)"
proof -
  from assms(1) obtain c t' where t: "t = c # t'" and c: "\<not> isspace c"
    and t': "\<forall>x\<in>set t'. \<not> isspace x"
    by (cases t) (auto simp: token_def)
  have d1: "dropWhile isspace (t @ d # rest) = t @ d # rest"
    using c by (simp add: t)
  have d2: "dropWhile (\<lambda>c. \<not> isspace c) (t @ d # rest) = d # rest"
    using c t' assms(2) by (simp add: t dropWhile_append2)
  have d3: "takeWhile (\<lambda>c. \<not> isspace c) (t @ d # rest) = t"
    using c t' assms(2) by (simp add: t takeWhile_append2)
  show ?thesis
    by (simp add: get_token_def d1 d2 d3 Let_def del: dropWhile_append takeWhile_append)
qed

lemma get_token_at_eof:
  assumes "token t"
  shows "get_token (good t) s = (\<lparr>buf = [], eofbit = True, failbit = False\<rparr>, t)"
proof -
  from assms obtain c t' where t: "t = c # t'" and c: "\<not> isspace c"
    and t': "\<forall>x\<in>set t'. \<not> isspace x"
    by (cases t) (auto simp: token_def)
  have d1: "dropWhile isspace t = t"
    using c by (simp add: t)
  have d2: "dropWhile (\<lambda>c. \<not> isspace c) t = []"
    using c t' by (simp add: t)
  have d3: "takeWhile (\<lambda>c. \<not> isspace c) t = t"
    using c t' by (simp add: t)
  show ?thesis
    by (simp add: get_token_def d1 d2 d3 Let_def) (simp add: t)
qed

lemma get_token_blank:
  "blank ws \<Longrightarrow> get_token (good ws) s = (\<lparr>buf = [], eofbit = True, failbit = True\<rparr>, s)"
  by (simp add: get_token_def blank_def)

lemma get_token_not_good:
  "failbit f \<or> eofbit f \<Longrightarrow> get_token f s = (f\<lparr>failbit := True\<rparr>, s)"
  by (simp add: get_token_def)

lemma get_token_indep:
  "fst (get_token f s) = fst (get_token f s')"
  "\<not> failbit (fst (get_token f s)) \<Longrightarrow> snd (get_token f s) = snd (get_token f s')"
  by (auto simp: get_token_def Let_def split: if_splits)

lemma get_token_skip1:
  "isspace c \<Longrightarrow> get_token (good (c # b)) s = get_token (good b) s"
  using get_token_skip_blank [of "[c]" b s] by (simp add: blank_def)

lemma token_PUT: "token ''PUT''" and token_DEL: "token ''DEL''"
  by (simp_all add: token_def isspace_def)

lemma isspace_sp: "isspace CHR '' ''" and isspace_nl: "isspace CHR ''\<newline>''"
  by (simp_all add: isspace_def)

lemma load_loop_failed: "failbit f \<or> eofbit f \<Longrightarrow> load_loop f key val db = db"
  by (simp add: load_loop.simps [of f] get_token_not_good)

lemma load_loop_indep: "load_loop f key val db = load_loop f key' val' db"
proof -
  obtain f1 where f1: "fst (get_token f key) = f1" "fst (get_token f key') = f1"
    using get_token_indep(1) by blast
  obtain f2 where f2: "fst (get_token f1 val) = f2" "fst (get_token f1 val') = f2"
    using get_token_indep(1) by blast
  show ?thesis
  proof (cases "failbit f2")
    case True
    then show ?thesis
      using f1 f2 by (simp add: load_loop.simps [of f] case_prod_beta)
  next
    case False
    with f2 have "\<not> failbit f1"
      using get_token_failbit_mono by blast
    with f1 have k: "snd (get_token f key) = snd (get_token f key')"
      using get_token_indep(2) by blast
    from False f2 have v: "snd (get_token f1 val) = snd (get_token f1 val')"
      using get_token_indep(2) by blast
    show ?thesis
      using f1 f2 k v by (simp add: load_loop.simps [of f] case_prod_beta)
  qed
qed

lemma load_loop_skip_blank:
  "blank ws \<Longrightarrow> load_loop (good (ws @ b)) key val db = load_loop (good b) key val db"
  by (simp add: load_loop.simps [of "good (ws @ b)"] load_loop.simps [of "good b"]
      get_token_skip_blank)

lemma load_loop_blank: "blank ws \<Longrightarrow> load_loop (good ws) key val db = db"
  by (simp add: load_loop.simps [of "good ws"] get_token_blank get_token_not_good)

lemma load_loop_lone_key:
  assumes "token k" "blank ws"
  shows "load_loop (good (k @ ws)) key val db = db"
proof (cases ws)
  case Nil
  then show ?thesis
    using assms by (simp add: load_loop.simps [of "good k"] get_token_at_eof get_token_not_good)
next
  case (Cons d ws')
  with assms(2) have d: "isspace d" and b: "blank (d # ws')"
    by (simp_all add: blank_def)
  show ?thesis
    unfolding Cons
    by (simp add: load_loop.simps [of "good (k @ d # ws')"] get_token_token [OF assms(1) d]
        get_token_blank [OF b] get_token_not_good)
qed

lemma load_loop_entry:
  assumes "token k" "token v"
  shows "load_loop (good (k @ CHR '' '' # v @ CHR ''\<newline>'' # rest)) key val db
           = load_loop (good rest) key' val' (db(k \<mapsto> v))"
proof -
  have "load_loop (good (k @ CHR '' '' # v @ CHR ''\<newline>'' # rest)) key val db
          = load_loop (good (CHR ''\<newline>'' # rest)) k v (db(k \<mapsto> v))"
    by (simp add: load_loop.simps [of "good (k @ CHR '' '' # v @ CHR ''\<newline>'' # rest)"]
        get_token_token [OF assms(1) isspace_sp] get_token_skip1 [OF isspace_sp]
        get_token_token [OF assms(2) isspace_nl])
  also have "\<dots> = load_loop (good rest) k v (db(k \<mapsto> v))"
    using load_loop_skip_blank [of "[CHR ''\<newline>'']" rest] by (simp add: blank_def isspace_nl)
  also have "\<dots> = load_loop (good rest) key' val' (db(k \<mapsto> v))"
    by (rule load_loop_indep)
  finally show ?thesis .
qed

lemma load_loop_table:
  "list_all wf_entry ps \<Longrightarrow>
     load_loop (good (table_text ps @ rest)) key val db
       = load_loop (good rest) key val (store_all db ps)"
proof (induction ps arbitrary: db)
  case Nil
  show ?case by (simp add: table_text_def)
next
  case (Cons p ps)
  then have "wf_entry p" and ps: "list_all wf_entry ps"
    by simp_all
  then have p: "token (fst p)" "token (snd p)"
    by (simp_all add: wf_entry_def)
  have "table_text (p # ps) @ rest
          = fst p @ CHR '' '' # snd p @ CHR ''\<newline>'' # (table_text ps @ rest)"
    by (simp add: table_text_def table_line_def)
  then have "load_loop (good (table_text (p # ps) @ rest)) key val db
          = load_loop (good (table_text ps @ rest)) key val (db(fst p \<mapsto> snd p))"
    using load_loop_entry [OF p, of "table_text ps @ rest" key val db key val] by simp
  then show ?case
    by (simp only: Cons.IH [OF ps] store_all.simps)
qed

lemma wf_entries: "wf_mapping M \<Longrightarrow> list_all wf_entry (entries M ks)"
  by (induction ks) (auto simp: wf_mapping_def wf_entry_def split: option.splits)

lemma store_all_entries:
  "store_all db (entries M ks) = (\<lambda>x. if x \<in> set ks \<and> M x \<noteq> None then M x else db x)"
proof (induction ks arbitrary: db)
  case Nil
  show ?case by simp
next
  case (Cons k ks)
  show ?case
    by (cases "M k") (auto simp: Cons.IH fun_eq_iff)
qed

lemma store_all_all:
  assumes "set ks = dom M"
  shows "store_all Map.empty (entries M ks) = M"
  unfolding store_all_entries using assms by (auto simp: fun_eq_iff dom_def)

lemma store_all_other: "k \<notin> fst ` set qs \<Longrightarrow> store_all db qs k = db k"
  by (induction qs arbitrary: db) auto

lemma store_all_append: "store_all M (ps @ qs) = store_all (store_all M ps) qs"
  by (induction ps arbitrary: M) simp_all

lemma applyLog_loop_failed:
  "failbit f \<or> eofbit f \<Longrightarrow> applyLog_loop f operation key val db = db"
  by (simp add: applyLog_loop.simps [of f] get_token_not_good)

lemma applyLog_loop_indep:
  "applyLog_loop f operation key val db = applyLog_loop f operation' key' val db"
proof -
  obtain f1 where f1: "fst (get_token f operation) = f1" "fst (get_token f operation') = f1"
    using get_token_indep(1) by blast
  obtain f2 where f2: "fst (get_token f1 key) = f2" "fst (get_token f1 key') = f2"
    using get_token_indep(1) by blast
  show ?thesis
  proof (cases "failbit f2")
    case True
    then show ?thesis
      using f1 f2 by (simp add: applyLog_loop.simps [of f] case_prod_beta)
  next
    case False
    with f2 have "\<not> failbit f1"
      using get_token_failbit_mono by blast
    with f1 have o: "snd (get_token f operation) = snd (get_token f operation')"
      using get_token_indep(2) by blast
    from False f2 have k: "snd (get_token f1 key) = snd (get_token f1 key')"
      using get_token_indep(2) by blast
    show ?thesis
      using f1 f2 o k by (simp add: applyLog_loop.simps [of f] case_prod_beta)
  qed
qed

lemma applyLog_loop_skip_blank:
  "blank ws \<Longrightarrow>
     applyLog_loop (good (ws @ b)) operation key val db = applyLog_loop (good b) operation key val db"
  by (simp add: applyLog_loop.simps [of "good (ws @ b)"] applyLog_loop.simps [of "good b"]
      get_token_skip_blank)

lemma applyLog_loop_skip_nl:
  "applyLog_loop (good (CHR ''\<newline>'' # b)) operation key val db
     = applyLog_loop (good b) operation' key' val db"
  using applyLog_loop_skip_blank [of "[CHR ''\<newline>'']" b operation key val db]
    applyLog_loop_indep [of "good b" operation key val db operation' key']
  by (simp add: blank_def isspace_nl)

lemma applyLog_loop_blank: "blank ws \<Longrightarrow> applyLog_loop (good ws) operation key val db = db"
  by (simp add: applyLog_loop.simps [of "good ws"] get_token_blank get_token_not_good)

lemma applyLog_loop_PUT:
  assumes "token k" "token v"
  shows "applyLog_loop (good (''PUT '' @ k @ '' '' @ v @ ''\<newline>'' @ rest)) operation key val db
           = applyLog_loop (good rest) operation' key' v (db(k \<mapsto> v))"
proof -
  let ?b = "''PUT'' @ CHR '' '' # k @ CHR '' '' # v @ CHR ''\<newline>'' # rest"
  have "applyLog_loop (good ?b) operation key val db
          = applyLog_loop (good (CHR ''\<newline>'' # rest)) ''PUT'' k v (db(k \<mapsto> v))"
    by (simp add: applyLog_loop.simps [of "good ?b"]
        get_token_token [OF token_PUT isspace_sp] get_token_skip1 [OF isspace_sp]
        get_token_token [OF assms(1) isspace_sp] get_token_token [OF assms(2) isspace_nl]
        del: append.simps)
  also have "\<dots> = applyLog_loop (good rest) operation' key' v (db(k \<mapsto> v))"
    by (rule applyLog_loop_skip_nl)
  finally show ?thesis by simp
qed

lemma applyLog_loop_DEL:
  assumes "token k"
  shows "applyLog_loop (good (''DEL '' @ k @ ''\<newline>'' @ rest)) operation key val db
           = applyLog_loop (good rest) operation' key' val (db(k := None))"
proof -
  let ?b = "''DEL'' @ CHR '' '' # k @ CHR ''\<newline>'' # rest"
  have "applyLog_loop (good ?b) operation key val db
          = applyLog_loop (good (CHR ''\<newline>'' # rest)) ''DEL'' k val (db(k := None))"
    by (simp add: applyLog_loop.simps [of "good ?b"]
        get_token_token [OF token_DEL isspace_sp] get_token_skip1 [OF isspace_sp]
        get_token_token [OF assms(1) isspace_nl]
        del: append.simps)
  also have "\<dots> = applyLog_loop (good rest) operation' key' val (db(k := None))"
    by (rule applyLog_loop_skip_nl)
  finally show ?thesis by simp
qed

lemma applyLog_loop_record:
  assumes "wf_record r"
  shows "applyLog_loop (good (wal_line r @ rest)) operation key val db
           = applyLog_loop (good rest) operation key (last_value val [r]) (apply_record db r)"
proof (cases r)
  case (PUT k v)
  with assms show ?thesis
    using applyLog_loop_PUT [of k v rest operation key val db operation key] by simp
next
  case (DEL k)
  with assms show ?thesis
    using applyLog_loop_DEL [of k rest operation key val db operation key] by simp
qed

lemma last_value_Cons: "last_value v (r # R) = last_value (last_value v [r]) R"
  by (cases r) simp_all

lemma applyLog_loop_records:
  "list_all wf_record R \<Longrightarrow>
     applyLog_loop (good (wal_text R @ rest)) operation key val db
       = applyLog_loop (good rest) operation key (last_value val R) (replay db R)"
proof (induction R arbitrary: val db)
  case Nil
  show ?case by (simp add: wal_text_def)
next
  case (Cons r R)
  then have r: "wf_record r" and R: "list_all wf_record R"
    by simp_all
  have "applyLog_loop (good (wal_text (r # R) @ rest)) operation key val db
          = applyLog_loop (good (wal_line r @ (wal_text R @ rest))) operation key val db"
    by (simp add: wal_text_def)
  also have "\<dots> = applyLog_loop (good (wal_text R @ rest)) operation key
                      (last_value val [r]) (apply_record db r)"
    by (rule applyLog_loop_record [OF r])
  also have "\<dots> = applyLog_loop (good rest) operation key
                      (last_value (last_value val [r]) R) (replay (apply_record db r) R)"
    by (rule Cons.IH [OF R])
  finally show ?case
    by (simp only: last_value_Cons [symmetric] replay.simps)
qed

lemma applyLog_loop_truncated_PUT:
  assumes "token k" "blank ws"
  shows "applyLog_loop (good (''PUT '' @ k @ ws)) operation key val db = db(k \<mapsto> val)"
proof -
  let ?b = "''PUT'' @ CHR '' '' # k @ ws"
  have "applyLog_loop (good ?b) operation key val db = db(k \<mapsto> val)"
  proof (cases ws)
    case Nil
    then show ?thesis
      by (simp add: applyLog_loop.simps [of "good (''PUT'' @ CHR '' '' # k)"]
          get_token_token [OF token_PUT isspace_sp] get_token_skip1 [OF isspace_sp]
          get_token_at_eof [OF assms(1)] get_token_not_good applyLog_loop_failed
          del: append.simps)
  next
    case (Cons d ws')
    with assms(2) have d: "isspace d" and b: "blank (d # ws')"
      by (simp_all add: blank_def)
    show ?thesis
      unfolding Cons
      by (simp add: applyLog_loop.simps [of "good (''PUT'' @ CHR '' '' # k @ d # ws')"]
          get_token_token [OF token_PUT isspace_sp] get_token_skip1 [OF isspace_sp]
          get_token_token [OF assms(1) d] get_token_blank [OF b] applyLog_loop_failed
          del: append.simps)
  qed
  then show ?thesis by simp
qed

lemma last_value_put_values:
  "last_value v R = (if put_values R = [] then v else last (put_values R))"
  by (induction v R rule: last_value.induct) simp_all

lemma last_value_Nil: "last_value [] R = last_put_value R"
  by (simp add: last_value_put_values last_put_value_def)

lemma ExDB_load_loop_eq: "ExDB_load_loop f key val db = load_loop f key val db"
proof (induction f key val db rule: load_loop.induct)
  case (1 dbFile key val db)
  let ?f2 = "fst (get_token (fst (get_token dbFile key)) val)"
  show ?case
  proof (cases "failbit ?f2")
    case True
    then show ?thesis
      by (simp add: ExDB_load_loop.simps [of dbFile] load_loop.simps [of dbFile] case_prod_beta)
  next
    case False
    note eq = 1 [OF refl prod.collapse refl prod.collapse False]
    show ?thesis
      by (simp only: ExDB_load_loop.simps [of dbFile] load_loop.simps [of dbFile]
          case_prod_beta Let_def eq)
  qed
qed

lemma ExDB_applyLog_loop_eq:
  "ExDB_applyLog_loop f operation key val db = applyLog_loop f operation key val db"
proof (induction f operation key val db rule: applyLog_loop.induct)
  case (1 walFile operation key val db)
  let ?f2 = "fst (get_token (fst (get_token walFile operation)) key)"
  let ?op = "snd (get_token walFile operation)"
  note unfold = ExDB_applyLog_loop.simps [of walFile] applyLog_loop.simps [of walFile]
    case_prod_beta Let_def
  show ?case
  proof (cases "failbit ?f2")
    case True
    then show ?thesis
      by (simp only: unfold if_P)
  next
    case nf: False
    note ih = 1 [OF refl prod.collapse refl prod.collapse nf]
    show ?thesis
    proof (cases "?op = ''PUT''")
      case isput: True
      note eq = ih(1) [OF isput refl prod.collapse]
      show ?thesis
        by (simp only: unfold if_not_P [OF nf] if_P [OF isput] eq)
    next
      case nput: False
      show ?thesis
      proof (cases "?op = ''DEL''")
        case isdel: True
        note eq = ih(2) [OF nput isdel]
        show ?thesis
          by (simp only: unfold if_not_P [OF nf] if_not_P [OF nput] if_P [OF isdel] eq)
      next
        case ndel: False
        note eq = ih(3) [OF nput ndel]
        show ?thesis
          by (simp only: unfold if_not_P [OF nf] if_not_P [OF nput] if_not_P [OF ndel] eq)
      qed
    qed
  qed
qed

section \<open>Files\<close>

lemma with_file_simps:
  "path_file (with_file fs i c) = path_file fs"
  "file_readable (with_file fs i c) = file_readable fs"
  "file_writable (with_file fs i c) = file_writable fs"
  "file_content (with_file fs i c) = (file_content fs)(i \<mapsto> c)"
  by (simp_all add: with_file_def)

lemma with_file_twice: "with_file (with_file fs i a) i b = with_file fs i b"
  by (simp add: with_file_def)



lemma ofstream_write_closed: "ofstream_write fs None s = fs"
  by (simp add: ofstream_write_def)

lemma ofstream_write_open:
  "file_content fs i = Some c \<Longrightarrow> ofstream_write fs (Some i) s = with_file fs i (c @ s)"
  by (simp add: ofstream_write_def with_file_def)


lemma ofstream_open_trunc_fails:
  "\<not> writable fs name \<Longrightarrow> ofstream_open_trunc fs name = (None, fs)"
  by (auto simp: ofstream_open_trunc_def writable_def split: option.splits)

lemma ofstream_open_app_ok:
  "path_file fs name = Some i \<Longrightarrow> file_writable fs i \<Longrightarrow>
     ofstream_open_app fs name = (Some i, with_file fs i (content_of fs i))"
  by (cases "file_content fs i")
    (simp_all add: ofstream_open_app_def with_file_def content_of_def fun_upd_idem)

lemma ofstream_open_app_fails:
  "\<not> writable fs name \<Longrightarrow> ofstream_open_app fs name = (None, fs)"
  by (auto simp: ofstream_open_app_def writable_def split: option.splits)

lemma save_loop_closed: "save_loop None M ks fs = fs"
  by (induction ks) (simp_all add: ofstream_write_closed split: option.splits)



lemma save_fails: "\<not> writable fs (dbFileName' st) \<Longrightarrow> save st M ks fs = fs"
  by (simp add: save_def ofstream_open_trunc_fails save_loop_closed)

lemma load_table:
  assumes "list_all wf_entry ps" "read_file fs (dbFileName' st) = Some (table_text ps)"
  shows "load st fs = store_all Map.empty ps"
  using load_loop_table [OF assms(1), of "[]"] assms(2)
  by (simp add: load_def ifstream_open_def load_loop_blank blank_def)

lemma load_absent: "read_file fs (dbFileName' st) = None \<Longrightarrow> load st fs = Map.empty"
  by (simp add: load_def ifstream_open_def load_loop_failed)

lemma load_table_then:
  assumes "list_all wf_entry ps" "read_file fs (dbFileName' st) = Some (table_text ps @ rest)"
  shows "load st fs = load_loop (good rest) [] [] (store_all Map.empty ps)"
  using load_loop_table [OF assms(1), of rest] assms(2)
  by (simp add: load_def ifstream_open_def)

lemma load_entries:
  assumes "wf_mapping S" "set ks = dom S"
    and "read_file fs (dbFileName' st) = Some (table_text (entries S ks))"
  shows "load st fs = S"
  using load_table [of "entries S ks" fs st, OF wf_entries [OF assms(1)] assms(3)]
    store_all_all [OF assms(2)]
  by simp



lemma applyLog_records_then:
  assumes "list_all wf_record R" "read_file fs (walFileName' w) = Some (wal_text R @ rest)"
  shows "applyLog w db fs = applyLog_loop (good rest) [] [] (last_value [] R) (replay db R)"
  using applyLog_loop_records [OF assms(1), of rest] assms(2)
  by (simp add: applyLog_def ifstream_open_def)

lemma applyLog_records:
  assumes "list_all wf_record R" "read_file fs (walFileName' w) = Some (wal_text R)"
  shows "applyLog w db fs = replay db R"
  using applyLog_records_then [OF assms(1), of fs w "[]" db] assms(2)
  by (simp add: applyLog_loop_blank blank_def)


lemma applyLog_truncated_PUT:
  assumes "list_all wf_record R" "token k" "blank ws"
    and "read_file fs (walFileName' w) = Some (wal_text R @ ''PUT '' @ k @ ws)"
  shows "applyLog w db fs = (replay db R)(k \<mapsto> last_put_value R)"
  using applyLog_records_then [OF assms(1), of fs w "''PUT '' @ k @ ws" db] assms(4)
    applyLog_loop_truncated_PUT [OF assms(2,3), of "[]" "[]" "last_value [] R" "replay db R"]
  by (simp only: last_value_Nil)

lemma KeyValueDB_new_db:
  "db' (KeyValueDB_new dbFileName walFileName fs)
     = applyLog \<lparr>walFileName' = walFileName\<rparr> (load \<lparr>dbFileName' = dbFileName\<rparr> fs) fs"
  by (simp add: KeyValueDB_new_def Let_def)

lemma recovery_equivalence_aux:
  assumes "wf_mapping S" and "set ks = dom S" and "list_all wf_record R"
    and "read_file fs dbFileName = Some (table_text (entries S ks))"
    and "read_file fs walFileName = Some (wal_text R)"
  shows "db' (KeyValueDB_new dbFileName walFileName fs) = replay S R"
proof -
  have "load \<lparr>dbFileName' = dbFileName\<rparr> fs = S"
    using assms(1,2,4) by (intro load_entries [where ks = ks]) simp_all
  moreover have "applyLog \<lparr>walFileName' = walFileName\<rparr> S fs = replay S R"
    using assms(3,5) by (intro applyLog_records) simp_all
  ultimately show ?thesis
    by (simp add: KeyValueDB_new_db)
qed





lemma logWriteOperation_content:
  assumes "path_file fs (walFileName' w) = Some i" "file_writable fs i"
  shows "logWriteOperation w key val fs
           = with_file fs i (content_of fs i @ wal_line (PUT key val))"
  by (simp add: logWriteOperation_def ofstream_open_app_ok [OF assms] ofstream_write_open
      with_file_simps with_file_twice)

lemma logWriteOperation_fails:
  "\<not> writable fs (walFileName' w) \<Longrightarrow> logWriteOperation w key val fs = fs"
  by (simp add: logWriteOperation_def ofstream_open_app_fails ofstream_write_closed)

lemma ExDB_save_loop_eq: "ExDB_save_loop f db ks fs = save_loop f db ks fs"
  by (induction ks arbitrary: fs) (simp_all split: option.splits)

lemma corresponds_new: "corresponds (KeyValueDB_new d w fs) (ExDB_new d w fs)"
  by (simp add: corresponds_def KeyValueDB_new_def ExDB_new_def Let_def load_def ExDB_load_def
      applyLog_def ExDB_applyLog_def ExDB_load_loop_eq ExDB_applyLog_loop_eq)

lemma corresponds_call:
  assumes "corresponds a b"
  shows "fst (KeyValueDB_call c (a, fs)) = fst (ExDB_call c (b, fs))
    \<and> corresponds (fst (snd (KeyValueDB_call c (a, fs)))) (fst (snd (ExDB_call c (b, fs))))
    \<and> snd (snd (KeyValueDB_call c (a, fs))) = snd (snd (ExDB_call c (b, fs)))"
  using assms
  by (cases c)
    (auto simp: corresponds_def put_def ExDB_put_def get_def ExDB_get_def remove_def
      ExDB_remove_def mergeLogs_def ExDB_mergeLogs_def logWriteOperation_def
      ExDB_logWriteOperation_def logDeleteOperation_def ExDB_logDeleteOperation_def
      save_def ExDB_save_def clearLog_def ExDB_clearLog_def ExDB_save_loop_eq
      split: option.splits)

lemma corresponds_run:
  "corresponds a b \<Longrightarrow> KeyValueDB_observe (KeyValueDB_run cs (a, fs)) = ExDB_observe (ExDB_run cs (b, fs))"
proof (induction cs arbitrary: a b fs)
  case Nil
  then show ?case
    by (simp add: KeyValueDB_observe_def ExDB_observe_def corresponds_def)
next
  case (Cons c cs)
  obtain r a' fs' where k: "KeyValueDB_call c (a, fs) = (r, a', fs')"
    by (metis prod.exhaust)
  obtain r2 b' fs2 where x: "ExDB_call c (b, fs) = (r2, b', fs2)"
    by (metis prod.exhaust)
  from corresponds_call [OF Cons.prems, of c fs] k x
  have eq: "r = r2" "corresponds a' b'" "fs' = fs2"
    by simp_all
  from Cons.IH [OF eq(2), of fs2] show ?case
    by (simp add: k x eq KeyValueDB_observe_def ExDB_observe_def split: prod.splits)
qed



section \<open>States that a merge does not restore\<close>

text \<open>
  Four runs after which the table file does not load as the mapping in memory: an
  empty value, one file under two paths for the table and the log, a table path
  that cannot be opened (the log is emptied all the same), and the empty value that
  a truncated \<^verbatim>\<open>PUT\<close> leaves.
\<close>

lemma mergeLogs_empty_value_not_restored:
  "load (storage' (fst (mergeLogs [''k'']
           (put ''k'' [] (KeyValueDB_new ''db.txt'' ''wal.txt'' (disk None None),
                          disk None None)))))
     (snd (mergeLogs [''k'']
           (put ''k'' [] (KeyValueDB_new ''db.txt'' ''wal.txt'' (disk None None),
                          disk None None)))) ''k''
     = None
   \<and> db' (fst (mergeLogs [''k'']
           (put ''k'' [] (KeyValueDB_new ''db.txt'' ''wal.txt'' (disk None None),
                          disk None None)))) ''k''
     = Some []"
  by code_simp

lemma mergeLogs_same_file_loses_snapshot:
  "load (storage' (fst (mergeLogs [''k'']
           (put ''k'' ''v'' (KeyValueDB_new ''f.txt'' ''./f.txt'' linked_disk, linked_disk)))))
     (snd (mergeLogs [''k'']
           (put ''k'' ''v'' (KeyValueDB_new ''f.txt'' ''./f.txt'' linked_disk, linked_disk))))
     ''k''
     = None
   \<and> db' (fst (mergeLogs [''k'']
           (put ''k'' ''v'' (KeyValueDB_new ''f.txt'' ''./f.txt'' linked_disk, linked_disk))))
     ''k''
     = Some ''v''"
  by code_simp

lemma mergeLogs_unwritable_table_loses_log:
  "load (storage' (fst (mergeLogs [''age'']
           (put ''age'' ''30'' (KeyValueDB_new ''nodir/db.txt'' ''wal.txt'' (disk None None),
                               disk None None)))))
     (snd (mergeLogs [''age'']
           (put ''age'' ''30'' (KeyValueDB_new ''nodir/db.txt'' ''wal.txt'' (disk None None),
                               disk None None)))) ''age''
     = None
   \<and> read_file (snd (mergeLogs [''age'']
           (put ''age'' ''30'' (KeyValueDB_new ''nodir/db.txt'' ''wal.txt'' (disk None None),
                               disk None None)))) ''wal.txt''
     = Some []
   \<and> db' (fst (mergeLogs [''age'']
           (put ''age'' ''30'' (KeyValueDB_new ''nodir/db.txt'' ''wal.txt'' (disk None None),
                               disk None None)))) ''age''
     = Some ''30''"
  by code_simp

lemma mergeLogs_after_truncated_PUT:
  "load (storage' (fst (mergeLogs [''k'']
           (KeyValueDB_new ''db.txt'' ''wal.txt'' (disk None (Some ''PUT k'')),
            disk None (Some ''PUT k'')))))
     (snd (mergeLogs [''k'']
           (KeyValueDB_new ''db.txt'' ''wal.txt'' (disk None (Some ''PUT k'')),
            disk None (Some ''PUT k'')))) ''k''
     = None
   \<and> db' (fst (mergeLogs [''k'']
           (KeyValueDB_new ''db.txt'' ''wal.txt'' (disk None (Some ''PUT k'')),
            disk None (Some ''PUT k'')))) ''k''
     = Some []"
  by code_simp

section \<open>The claims\<close>

text \<open>
  Claim C1 (recovery equivalence). Let \<open>S\<close> be a snapshot and \<open>R\<close> a sequence of WAL
  records, keys and values being tokens as in the data model of the specification.
  When the table file is read as the lines of \<open>S\<close> (in any order \<open>ks\<close> of its
  keys) and the WAL file as the lines of \<open>R\<close>, the constructor of the facade yields
  the mapping obtained from \<open>S\<close> by applying the records of \<open>R\<close> in file order.
\<close>

theorem recovery_equivalence:
  assumes "wf_mapping S" and "set ks = dom S" and "list_all wf_record R"
    and "read_file fs dbFileName = Some (table_text (entries S ks))"
    and "read_file fs walFileName = Some (wal_text R)"
  shows "db' (KeyValueDB_new dbFileName walFileName fs) = replay S R"
  using assms by (rule recovery_equivalence_aux)

theorem recovery_equivalence_witness:
  "wf_mapping [''name'' \<mapsto> ''Alice'', ''age'' \<mapsto> ''30'']
   \<and> set [''age'', ''name''] = dom [''name'' \<mapsto> ''Alice'', ''age'' \<mapsto> ''30'']
   \<and> list_all wf_record [PUT ''age'' ''31'', DEL ''name'', PUT ''city'' ''Paris'']
   \<and> db' (KeyValueDB_new ''db.txt'' ''wal.txt''
         (disk (Some ''age 30\<newline>name Alice\<newline>'')
               (Some ''PUT age 31\<newline>DEL name\<newline>PUT city Paris\<newline>'')))
       = [''age'' \<mapsto> ''31'', ''city'' \<mapsto> ''Paris'']"
proof -
  let ?S = "[''name'' \<mapsto> ''Alice'', ''age'' \<mapsto> ''30'']"
  let ?R = "[PUT ''age'' ''31'', DEL ''name'', PUT ''city'' ''Paris'']"
  let ?fs = "disk (Some ''age 30\<newline>name Alice\<newline>'')
               (Some ''PUT age 31\<newline>DEL name\<newline>PUT city Paris\<newline>'')"
  have h1: "wf_mapping ?S"
    by (simp add: wf_mapping_def token_def isspace_def)
  have h2: "set [''age'', ''name''] = dom ?S"
    by auto
  have h3: "list_all wf_record ?R"
    by (simp add: token_def isspace_def)
  have h4: "read_file ?fs ''db.txt'' = Some (table_text (entries ?S [''age'', ''name'']))"
    by (simp add: read_file_def disk_def table_text_def table_line_def)
  have h5: "read_file ?fs ''wal.txt'' = Some (wal_text ?R)"
    by (simp add: read_file_def disk_def wal_text_def)
  have "db' (KeyValueDB_new ''db.txt'' ''wal.txt'' ?fs) = replay ?S ?R"
    by (rule recovery_equivalence [where fs = ?fs, OF h1 h2 h3 h4 h5])
  also have "\<dots> = [''age'' \<mapsto> ''31'', ''city'' \<mapsto> ''Paris'']"
    by (auto simp: fun_eq_iff)
  finally show ?thesis
    using h1 h2 h3 by blast
qed







text \<open>
  Claim C4 (replay semantics of \<^verbatim>\<open>applyLog\<close>). On a WAL file that holds the lines
  of a record sequence \<open>R\<close>, \<^verbatim>\<open>applyLog\<close> returns the starting mapping with the
  records of \<open>R\<close> applied in file order. The loop consumes exactly the tokens of
  the records: whatever content \<open>rest\<close> follows them is read next, from the
  mapping and the value variable the records leave behind. A \<^verbatim>\<open>PUT\<close> line sets
  the entry of its key; a \<^verbatim>\<open>DEL\<close> line removes the key and consumes the operation
  and the key only, so that the loop continues with the text right after the key;
  when the key is absent the mapping is unchanged.
\<close>

theorem applyLog_replay:
  "(list_all wf_record R \<and> read_file fs (walFileName' w) = Some (wal_text R)
      \<longrightarrow> applyLog w db fs = replay db R)
   \<and> (list_all wf_record R
      \<longrightarrow> applyLog_loop (good (wal_text R @ rest)) operation key val db
            = applyLog_loop (good rest) operation key (last_value val R) (replay db R))
   \<and> (token k \<and> token v
      \<longrightarrow> applyLog_loop (good (''PUT '' @ k @ '' '' @ v @ ''\<newline>'' @ rest)) operation key val db
            = applyLog_loop (good rest) operation key v (db(k \<mapsto> v)))
   \<and> (token k
      \<longrightarrow> applyLog_loop (good (''DEL '' @ k @ ''\<newline>'' @ rest)) operation key val db
            = applyLog_loop (good rest) operation key val (db(k := None)))
   \<and> (token k \<and> k \<notin> dom db
      \<longrightarrow> applyLog_loop (good (''DEL '' @ k @ ''\<newline>'' @ rest)) operation key val db
            = applyLog_loop (good rest) operation key val db)"
proof (intro conjI impI)
  assume "list_all wf_record R \<and> read_file fs (walFileName' w) = Some (wal_text R)"
  then show "applyLog w db fs = replay db R"
    using applyLog_records by blast
next
  assume "list_all wf_record R"
  then show "applyLog_loop (good (wal_text R @ rest)) operation key val db
            = applyLog_loop (good rest) operation key (last_value val R) (replay db R)"
    by (rule applyLog_loop_records)
next
  assume "token k \<and> token v"
  then show "applyLog_loop (good (''PUT '' @ k @ '' '' @ v @ ''\<newline>'' @ rest)) operation key val db
            = applyLog_loop (good rest) operation key v (db(k \<mapsto> v))"
    using applyLog_loop_PUT by blast
next
  assume "token k"
  then show "applyLog_loop (good (''DEL '' @ k @ ''\<newline>'' @ rest)) operation key val db
            = applyLog_loop (good rest) operation key val (db(k := None))"
    by (rule applyLog_loop_DEL)
next
  assume a: "token k \<and> k \<notin> dom db"
  then have "db(k := None) = db"
    by (auto simp: fun_eq_iff)
  with a show "applyLog_loop (good (''DEL '' @ k @ ''\<newline>'' @ rest)) operation key val db
            = applyLog_loop (good rest) operation key val db"
    using applyLog_loop_DEL [of k rest operation key val db operation key] by simp
qed

theorem applyLog_replay_witness:
  "list_all wf_record [PUT ''a'' ''1'', DEL ''b'', PUT ''a'' ''2'', DEL ''c'']
   \<and> applyLog \<lparr>walFileName' = ''wal.txt''\<rparr> [''b'' \<mapsto> ''0'']
         (disk None (Some ''PUT a 1\<newline>DEL b\<newline>PUT a 2\<newline>DEL c\<newline>''))
       = replay [''b'' \<mapsto> ''0''] [PUT ''a'' ''1'', DEL ''b'', PUT ''a'' ''2'', DEL ''c'']
   \<and> applyLog_loop (good (wal_text [PUT ''a'' ''1'', DEL ''b'', PUT ''a'' ''2'', DEL ''c''] @ ''PUT d''))
         [] [] [] [''b'' \<mapsto> ''0'']
       = applyLog_loop (good ''PUT d'') [] []
           (last_value [] [PUT ''a'' ''1'', DEL ''b'', PUT ''a'' ''2'', DEL ''c''])
           (replay [''b'' \<mapsto> ''0''] [PUT ''a'' ''1'', DEL ''b'', PUT ''a'' ''2'', DEL ''c''])
   \<and> token ''a'' \<and> token ''1''
   \<and> applyLog_loop (good (''PUT '' @ ''a'' @ '' '' @ ''1'' @ ''\<newline>'' @ ''DEL a'')) [] [] []
         [''b'' \<mapsto> ''0'']
       = applyLog_loop (good ''DEL a'') [] [] ''1'' [''b'' \<mapsto> ''0'', ''a'' \<mapsto> ''1'']
   \<and> applyLog_loop (good (''DEL '' @ ''a'' @ ''\<newline>'' @ ''x y'')) [] [] []
         [''a'' \<mapsto> ''0'']
       = applyLog_loop (good ''x y'') [] [] [] ([''a'' \<mapsto> ''0''](''a'' := None))
   \<and> ''a'' \<notin> dom [''b'' \<mapsto> ''0'']
   \<and> applyLog_loop (good (''DEL '' @ ''a'' @ ''\<newline>'' @ ''x y'')) [] [] []
         [''b'' \<mapsto> ''0'']
       = applyLog_loop (good ''x y'') [] [] [] [''b'' \<mapsto> ''0'']"
proof -
  let ?R = "[PUT ''a'' ''1'', DEL ''b'', PUT ''a'' ''2'', DEL ''c'']"
  have tok: "token ''a''" "token ''1''" "list_all wf_record ?R"
    by (simp_all add: token_def isspace_def)
  have nd: "''a'' \<notin> dom [''b'' \<mapsto> ''0'']"
    by simp
  have 1: "applyLog \<lparr>walFileName' = ''wal.txt''\<rparr> [''b'' \<mapsto> ''0'']
         (disk None (Some ''PUT a 1\<newline>DEL b\<newline>PUT a 2\<newline>DEL c\<newline>''))
       = replay [''b'' \<mapsto> ''0''] ?R"
    using applyLog_replay [where R = ?R and w = "\<lparr>walFileName' = ''wal.txt''\<rparr>"
        and fs = "disk None (Some ''PUT a 1\<newline>DEL b\<newline>PUT a 2\<newline>DEL c\<newline>'')"
        and db = "[''b'' \<mapsto> ''0'']"] tok(3)
    by (simp add: wal_text_def read_file_def disk_def)
  have 2: "applyLog_loop (good (wal_text ?R @ ''PUT d'')) [] [] [] [''b'' \<mapsto> ''0'']
       = applyLog_loop (good ''PUT d'') [] [] (last_value [] ?R) (replay [''b'' \<mapsto> ''0''] ?R)"
    using applyLog_replay [where R = ?R and rest = "''PUT d''" and operation = "[]"
        and key = "[]" and val = "[]" and db = "[''b'' \<mapsto> ''0'']"] tok(3)
    by blast
  have 3: "applyLog_loop (good (''PUT '' @ ''a'' @ '' '' @ ''1'' @ ''\<newline>'' @ ''DEL a'')) [] [] []
         [''b'' \<mapsto> ''0'']
       = applyLog_loop (good ''DEL a'') [] [] ''1'' [''b'' \<mapsto> ''0'', ''a'' \<mapsto> ''1'']"
    using applyLog_replay [where k = "''a''" and v = "''1''" and rest = "''DEL a''"
        and operation = "[]" and key = "[]" and val = "[]" and db = "[''b'' \<mapsto> ''0'']"] tok(1,2)
    by blast
  have 4: "applyLog_loop (good (''DEL '' @ ''a'' @ ''\<newline>'' @ ''x y'')) [] [] []
         [''a'' \<mapsto> ''0'']
       = applyLog_loop (good ''x y'') [] [] [] ([''a'' \<mapsto> ''0''](''a'' := None))"
    using applyLog_replay [where k = "''a''" and rest = "''x y''"
        and operation = "[]" and key = "[]" and val = "[]" and db = "[''a'' \<mapsto> ''0'']"] tok(1)
    by blast
  have 5: "applyLog_loop (good (''DEL '' @ ''a'' @ ''\<newline>'' @ ''x y'')) [] [] []
         [''b'' \<mapsto> ''0'']
       = applyLog_loop (good ''x y'') [] [] [] [''b'' \<mapsto> ''0'']"
    using applyLog_replay [where k = "''a''" and rest = "''x y''"
        and operation = "[]" and key = "[]" and val = "[]" and db = "[''b'' \<mapsto> ''0'']"] tok(1) nd
    by blast
  from tok nd 1 2 3 4 5 show ?thesis
    by blast
qed

text \<open>
  Claim C5 (a truncated trailing \<^verbatim>\<open>PUT\<close> is dropped) does not hold of the code.
  With the mapping \<open>{k \<mapsto> old}\<close> and the WAL \<^verbatim>\<open>PUT a 1\<close>, \<^verbatim>\<open>PUT k\<close> (no value, end
  of file), \<^verbatim>\<open>applyLog\<close> leaves \<open>k\<close> bound to \<open>1\<close>, the value of the record
  before, not to \<open>old\<close>.
\<close>

theorem truncated_PUT_not_dropped:
  "applyLog \<lparr>walFileName' = ''wal.txt''\<rparr> [''k'' \<mapsto> ''old'']
     (disk None (Some ''PUT a 1\<newline>PUT k'')) ''k'' = Some ''1''"
  by code_simp

text \<open>
  Claim C6 (contract of \<^verbatim>\<open>get\<close>). \<^verbatim>\<open>get(key)\<close> returns the value stored under
  the key when the mapping has one and the text \<^verbatim>\<open>Key not found\<close> when it has
  none; the facade object and the file system are left as they were.
\<close>

theorem get_contract:
  "(db' this key = Some v \<longrightarrow> fst (get key (this, fs)) = v)
   \<and> (db' this key = None \<longrightarrow> fst (get key (this, fs)) = ''Key not found'')
   \<and> snd (get key (this, fs)) = (this, fs)"
  by (simp add: get_def split: option.splits)

theorem get_contract_witness:
  "fst (get ''age'' (\<lparr>db' = [''age'' \<mapsto> ''30''], storage' = \<lparr>dbFileName' = ''db.txt''\<rparr>,
                      wal' = \<lparr>walFileName' = ''wal.txt''\<rparr>\<rparr>, disk None None)) = ''30''
   \<and> fst (get ''name'' (\<lparr>db' = [''age'' \<mapsto> ''30''], storage' = \<lparr>dbFileName' = ''db.txt''\<rparr>,
                      wal' = \<lparr>walFileName' = ''wal.txt''\<rparr>\<rparr>, disk None None)) = ''Key not found''
   \<and> snd (get ''name'' (\<lparr>db' = [''age'' \<mapsto> ''30''], storage' = \<lparr>dbFileName' = ''db.txt''\<rparr>,
                      wal' = \<lparr>walFileName' = ''wal.txt''\<rparr>\<rparr>, disk None None))
       = (\<lparr>db' = [''age'' \<mapsto> ''30''], storage' = \<lparr>dbFileName' = ''db.txt''\<rparr>,
                      wal' = \<lparr>walFileName' = ''wal.txt''\<rparr>\<rparr>, disk None None)"
proof -
  let ?kv = "\<lparr>db' = [''age'' \<mapsto> ''30''], storage' = \<lparr>dbFileName' = ''db.txt''\<rparr>,
                      wal' = \<lparr>walFileName' = ''wal.txt''\<rparr>\<rparr>"
  have 1: "fst (get ''age'' (?kv, disk None None)) = ''30''"
    using get_contract [of ?kv "''age''" "''30''" "disk None None"] by simp
  have 2: "fst (get ''name'' (?kv, disk None None)) = ''Key not found''"
    using get_contract [of ?kv "''name''" _ "disk None None"] by simp
  have 3: "snd (get ''name'' (?kv, disk None None)) = (?kv, disk None None)"
    using get_contract [of ?kv "''name''" _ "disk None None"] by blast
  from 1 2 3 show ?thesis
    by blast
qed




text \<open>
  Claim C8 (edge cases of \<^verbatim>\<open>Storage::load\<close>). A table file that cannot be read
  (absent, or under a path that cannot be opened) and an empty one load as the
  empty mapping; a key at the end of the file with no value after it (only white
  space, if anything) is ignored: the result is that of the file without it; and
  of several lines with one key the last one read decides the value of that key.
\<close>

theorem load_edge_cases:
  "(read_file fs (dbFileName' st) = None \<longrightarrow> load st fs = Map.empty)
   \<and> (read_file fs (dbFileName' st) = Some [] \<longrightarrow> load st fs = Map.empty)
   \<and> (list_all wf_entry ps \<and> token k \<and> blank ws
        \<and> read_file fs (dbFileName' st) = Some (table_text ps @ k @ ws)
        \<and> read_file fs' (dbFileName' st) = Some (table_text ps)
      \<longrightarrow> load st fs = load st fs')
   \<and> (list_all wf_entry (ps @ (k, v) # qs) \<and> k \<notin> fst ` set qs
        \<and> read_file fs (dbFileName' st) = Some (table_text (ps @ (k, v) # qs))
      \<longrightarrow> load st fs k = Some v)"
proof (intro conjI impI)
  assume "read_file fs (dbFileName' st) = None"
  then show "load st fs = Map.empty" by (rule load_absent)
next
  assume "read_file fs (dbFileName' st) = Some []"
  then show "load st fs = Map.empty"
    using load_table [of "[]" fs st] by (simp add: table_text_def)
next
  assume a: "list_all wf_entry ps \<and> token k \<and> blank ws
        \<and> read_file fs (dbFileName' st) = Some (table_text ps @ k @ ws)
        \<and> read_file fs' (dbFileName' st) = Some (table_text ps)"
  then have "load st fs = store_all Map.empty ps"
    using load_table_then [of ps fs st "k @ ws"] by (simp add: load_loop_lone_key)
  moreover have "load st fs' = store_all Map.empty ps"
    using a by (intro load_table) simp_all
  ultimately show "load st fs = load st fs'"
    by simp
next
  assume a: "list_all wf_entry (ps @ (k, v) # qs) \<and> k \<notin> fst ` set qs
        \<and> read_file fs (dbFileName' st) = Some (table_text (ps @ (k, v) # qs))"
  then have "load st fs = store_all Map.empty (ps @ (k, v) # qs)"
    by (intro load_table) simp_all
  also have "\<dots> = store_all ((store_all Map.empty ps)(k \<mapsto> v)) qs"
    by (simp add: store_all_append)
  finally show "load st fs k = Some v"
    using a by (simp add: store_all_other)
qed

theorem load_edge_cases_witness:
  "load \<lparr>dbFileName' = ''db.txt''\<rparr> (disk None None) = Map.empty
   \<and> load \<lparr>dbFileName' = ''nodir/db.txt''\<rparr> (disk None None) = Map.empty
   \<and> load \<lparr>dbFileName' = ''db.txt''\<rparr> (disk (Some []) None) = Map.empty
   \<and> list_all wf_entry [(''a'', ''1'')] \<and> token ''b'' \<and> blank ''\<newline>''
   \<and> load \<lparr>dbFileName' = ''db.txt''\<rparr> (disk (Some ''a 1\<newline>b\<newline>'') None)
       = load \<lparr>dbFileName' = ''db.txt''\<rparr> (disk (Some ''a 1\<newline>'') None)
   \<and> list_all wf_entry [(''a'', ''1''), (''b'', ''2''), (''a'', ''3''), (''c'', ''4'')]
   \<and> ''a'' \<notin> fst ` set [(''c'', ''4'')]
   \<and> load \<lparr>dbFileName' = ''db.txt''\<rparr>
         (disk (Some ''a 1\<newline>b 2\<newline>a 3\<newline>c 4\<newline>'') None) ''a'' = Some ''3''"
proof -
  let ?st = "\<lparr>dbFileName' = ''db.txt''\<rparr>"
  have tok: "list_all wf_entry [(''a'', ''1''), (''b'', ''2''), (''a'', ''3''), (''c'', ''4'')]"
    "token ''b''" "blank ''\<newline>''"
    by (simp_all add: wf_entry_def token_def blank_def isspace_def)
  have 1: "load ?st (disk None None) = Map.empty"
    using load_edge_cases [where fs = "disk None None" and st = ?st]
    by (simp add: read_file_def disk_def)
  have nd: "load \<lparr>dbFileName' = ''nodir/db.txt''\<rparr> (disk None None) = Map.empty"
    using load_edge_cases [where fs = "disk None None"
        and st = "\<lparr>dbFileName' = ''nodir/db.txt''\<rparr>"]
    by (simp add: read_file_def disk_def)
  have 2: "load ?st (disk (Some []) None) = Map.empty"
    using load_edge_cases [where fs = "disk (Some []) None" and st = ?st]
    by (simp add: read_file_def disk_def)
  have 3: "load ?st (disk (Some ''a 1\<newline>b\<newline>'') None)
             = load ?st (disk (Some ''a 1\<newline>'') None)"
    using load_edge_cases [where fs = "disk (Some ''a 1\<newline>b\<newline>'') None"
        and fs' = "disk (Some ''a 1\<newline>'') None"
        and st = ?st and ps = "[(''a'', ''1'')]" and k = "''b''" and ws = "''\<newline>''"] tok
    by (simp add: table_text_def table_line_def read_file_def disk_def)
  have 4: "load ?st (disk (Some ''a 1\<newline>b 2\<newline>a 3\<newline>c 4\<newline>'') None) ''a''
             = Some ''3''"
    using load_edge_cases [where fs = "disk (Some ''a 1\<newline>b 2\<newline>a 3\<newline>c 4\<newline>'') None"
        and st = ?st and ps = "[(''a'', ''1''), (''b'', ''2'')]" and k = "''a''" and v = "''3''"
        and qs = "[(''c'', ''4'')]"] tok
    by (simp add: table_text_def table_line_def read_file_def disk_def)
  from 1 nd 2 3 4 tok show ?thesis
    by simp
qed

text \<open>
  Claim C9 (what a truncated trailing \<^verbatim>\<open>PUT\<close> does). When the WAL holds the lines
  of the records \<open>R\<close> followed by \<^verbatim>\<open>PUT k\<close> and nothing but white space up to the
  end of the file, \<^verbatim>\<open>applyLog\<close> still assigns to \<open>k\<close>: the result is the replay
  of \<open>R\<close> with \<open>k\<close> bound to the value token of the last \<^verbatim>\<open>PUT\<close> record of
  \<open>R\<close>, or to the empty string when \<open>R\<close> has no \<^verbatim>\<open>PUT\<close> record.
\<close>

theorem truncated_PUT_binds_leftover:
  assumes "list_all wf_record R" and "token k" and "blank ws"
    and "read_file fs (walFileName' w) = Some (wal_text R @ ''PUT '' @ k @ ws)"
  shows "applyLog w db fs = (replay db R)(k \<mapsto> last_put_value R)"
  using assms by (rule applyLog_truncated_PUT)

theorem truncated_PUT_binds_leftover_witness:
  "list_all wf_record [PUT ''a'' ''1'', DEL ''b''] \<and> token ''k'' \<and> blank []
   \<and> read_file (disk None (Some ''PUT a 1\<newline>DEL b\<newline>PUT k''))
         (walFileName' \<lparr>walFileName' = ''wal.txt''\<rparr>)
       = Some (wal_text [PUT ''a'' ''1'', DEL ''b''] @ ''PUT '' @ ''k'' @ [])
   \<and> applyLog \<lparr>walFileName' = ''wal.txt''\<rparr> [''k'' \<mapsto> ''old'', ''b'' \<mapsto> ''2'']
         (disk None (Some ''PUT a 1\<newline>DEL b\<newline>PUT k''))
       = [''a'' \<mapsto> ''1'', ''k'' \<mapsto> ''1'']"
proof -
  let ?fs = "disk None (Some ''PUT a 1\<newline>DEL b\<newline>PUT k'')"
  have h1: "list_all wf_record [PUT ''a'' ''1'', DEL ''b'']" and h2: "token ''k''"
    and h3: "blank []"
    by (simp_all add: token_def blank_def isspace_def)
  have h4: "read_file ?fs (walFileName' \<lparr>walFileName' = ''wal.txt''\<rparr>)
       = Some (wal_text [PUT ''a'' ''1'', DEL ''b''] @ ''PUT '' @ ''k'' @ [])"
    by (simp add: wal_text_def read_file_def disk_def)
  have "applyLog \<lparr>walFileName' = ''wal.txt''\<rparr> [''k'' \<mapsto> ''old'', ''b'' \<mapsto> ''2''] ?fs
       = (replay [''k'' \<mapsto> ''old'', ''b'' \<mapsto> ''2''] [PUT ''a'' ''1'', DEL ''b''])
           (''k'' \<mapsto> last_put_value [PUT ''a'' ''1'', DEL ''b''])"
    by (rule truncated_PUT_binds_leftover
          [where fs = ?fs and w = "\<lparr>walFileName' = ''wal.txt''\<rparr>", OF h1 h2 h3 h4])
  also have "\<dots> = [''a'' \<mapsto> ''1'', ''k'' \<mapsto> ''1'']"
    by (auto simp: last_put_value_def fun_eq_iff)
  finally show ?thesis
    using h1 h2 h3 h4 by blast
qed

text \<open>
  Claim C10 (the two implementations agree). For every file system, every pair
  of file names and every sequence of calls to \<^verbatim>\<open>put\<close>, \<^verbatim>\<open>get\<close>, \<^verbatim>\<open>remove\<close>
  and \<^verbatim>\<open>mergeLogs\<close>, the facade \<^verbatim>\<open>KeyValueDB\<close> of \<^verbatim>\<open>exDB.cpp\<close> and
  the facade \<^verbatim>\<open>ExDB\<close> of \<^verbatim>\<open>part_000\<close>, each constructed on that file system
  and run through the calls, return the same values and end with the same mapping,
  the same file names and the same file system.
\<close>

theorem KeyValueDB_ExDB_equivalent:
  "KeyValueDB_observe (KeyValueDB_run cs (KeyValueDB_new dbFileName walFileName fs, fs))
     = ExDB_observe (ExDB_run cs (ExDB_new dbFileName walFileName fs, fs))"
  by (rule corresponds_run [OF corresponds_new])

theorem KeyValueDB_ExDB_equivalent_witness:
  "KeyValueDB_observe
     (KeyValueDB_run
        [Call_put ''name'' ''Alice'', Call_put ''age'' ''30'', Call_get ''name'',
         Call_get ''age'', Call_remove ''name'', Call_get ''name'', Call_mergeLogs [''age'']]
        (KeyValueDB_new ''db.txt'' ''wal.txt'' (disk None None), disk None None))
   = ExDB_observe
     (ExDB_run
        [Call_put ''name'' ''Alice'', Call_put ''age'' ''30'', Call_get ''name'',
         Call_get ''age'', Call_remove ''name'', Call_get ''name'', Call_mergeLogs [''age'']]
        (ExDB_new ''db.txt'' ''wal.txt'' (disk None None), disk None None))"
  by (rule KeyValueDB_ExDB_equivalent)

end
